theory Spec2Isabelle
  imports Complex_Main
begin

section \<open>The notebook \<open>So_Much_Potential.ipynb\<close> as HOL definitions\<close>

text \<open>
  The notebook computes with IEEE double precision numbers. They are modelled by the real
  numbers throughout: every statement below is about the arithmetic the notebook writes
  down, evaluated exactly, and says nothing about rounding.

  Errors are values: a cell that raises returns \<open>Inl\<close> of the exception.
\<close>

datatype error = ValueError | IndexError | AssertionError

subsection \<open>Velocity-Verlet step and the analytic oscillator\<close>

text \<open>
  Modelled from the spec: the body of \<open>velocity_verlet\<close> is left blank in the notebook
  (only the signature, four placeholder comments and \<open>return r_new, v_new\<close> are there).
  The four assignments are the ones of section 4.4 of the specification, in the order of
  the notebook's placeholder comments (\<open>a_curr\<close>, \<open>r_new\<close>, \<open>a_new\<close>, \<open>v_new\<close>); they agree
  with the two update equations of the notebook's text.
\<close>

definition velocity_verlet ::
  "real \<Rightarrow> real \<Rightarrow> real \<Rightarrow> (real \<Rightarrow> real) \<Rightarrow> real \<Rightarrow> real \<times> real" where
  "velocity_verlet r_curr v_curr mu force_spline dt =
     (let a_curr = force_spline r_curr / mu;
          r_new = r_curr + v_curr * dt + 0.5 * a_curr * dt ^ 2;
          a_new = force_spline r_new / mu;
          v_new = v_curr + 0.5 * (a_curr + a_new) * dt
      in (r_new, v_new))"

text \<open>
  Modelled from the spec: the body of \<open>harmonic_position\<close> is left blank in the notebook.
  The expression is the notebook's own formula for the analytic solution,
  \<open>r(t) = A sin(sqrt(k/mu) t + phi) + r_eq\<close>, with the argument order of the signature
  \<open>harmonic_position(om, amp, phase, req, t)\<close>.
\<close>

definition harmonic_position :: "real \<Rightarrow> real \<Rightarrow> real \<Rightarrow> real \<Rightarrow> real \<Rightarrow> real" where
  "harmonic_position om amp phase req t = amp * sin (om * t + phase) + req"

subsection \<open>NumPy primitives the cells call\<close>

text \<open>
  \<open>np.zeros(n)\<close> is \<open>replicate n 0\<close>. \<open>np.linspace(start, stop, num)\<close> computes
  \<open>arange(0, num) * step + start\<close> with \<open>step = (stop - start) / (num - 1)\<close> and then
  stores \<open>stop\<close> in the last entry; with \<open>num = 1\<close> it is \<open>[start]\<close>.
\<close>

definition linspace :: "real \<Rightarrow> real \<Rightarrow> nat \<Rightarrow> real list" where
  "linspace start stop num =
     (if num = 0 then []
      else if num = 1 then [start]
      else (map (\<lambda>i. real i * ((stop - start) / real (num - 1)) + start) [0..<num])
             [num - 1 := stop])"

text \<open>
  \<open>np.argmin\<close> scans the array once and keeps the index of the smallest value seen so
  far, replacing it only by a strictly smaller value; on an empty array it raises
  \<open>ValueError\<close>.
\<close>

fun argmin_scan :: "real list \<Rightarrow> nat \<Rightarrow> nat \<Rightarrow> real \<Rightarrow> nat" where
  "argmin_scan [] i min_ind mp = min_ind"
| "argmin_scan (x # xs) i min_ind mp =
     (if x < mp then argmin_scan xs (Suc i) i x else argmin_scan xs (Suc i) min_ind mp)"

fun argmin :: "real list \<Rightarrow> error + nat" where
  "argmin [] = Inl ValueError"
| "argmin (x # xs) = Inr (argmin_scan xs 1 0 x)"


subsection \<open>The grids and the equilibrium bond length\<close>

definition r_array :: "real list" where
  "r_array = [0.5, 0.55, 0.6, 0.65, 0.7, 0.75, 0.8, 0.85, 0.9, 0.95, 1.0, 1.1, 1.2, 1.3,
              1.4, 1.5, 1.6, 1.7, 1.8, 1.9, 2.0, 2.1, 2.2, 2.3]"

text \<open>
  The assignment of \<open>r_array_au\<close> is a placeholder in the notebook; its text fixes it as
  1.89 times the bond lengths in Angstrom.
\<close>

definition r_array_au :: "real list" where
  "r_array_au = map (\<lambda>r. r * 1.89) r_array"

definition r_array_fine_au :: "real list" where
  "r_array_fine_au = linspace (0.5 * 1.89) (2.3 * 1.89) 200"

text \<open>
  \<open>r_eq_idx = np.argmin(ccsd_energy_array_fine)\<close>, \<open>ccsd_r_eq = r_array_fine_au[r_eq_idx]\<close>.
  The two arrays are the inputs; indexing past the end raises \<open>IndexError\<close>. These are
  the two assignments only: the cell goes on to print \<open>ccsd_r_eq\<close> and to assert that
  \<open>ccsd_r_eq / 1.89\<close> is close to the expected bond length.
\<close>

definition locate_r_eq :: "real list \<Rightarrow> real list \<Rightarrow> error + nat \<times> real" where
  "locate_r_eq r_fine energy_array_fine =
     (case argmin energy_array_fine of
        Inl e \<Rightarrow> Inl e
      | Inr r_eq_idx \<Rightarrow>
          if r_eq_idx < length r_fine then Inr (r_eq_idx, r_fine ! r_eq_idx)
          else Inl IndexError)"

text \<open>The index of the first occurrence of the minimum of an array.\<close>

definition first_min :: "real list \<Rightarrow> nat \<Rightarrow> bool" where
  "first_min E i \<longleftrightarrow>
     i < length E \<and> (\<forall>j<length E. E ! i \<le> E ! j) \<and> (\<forall>j<i. E ! i < E ! j)"


subsection \<open>Splines\<close>

text \<open>
  A polynomial is the list of its coefficients, lowest power first; \<open>polyval\<close> evaluates
  it and \<open>polyder\<close> is its derivative, one degree lower.
\<close>

fun polyval :: "real list \<Rightarrow> real \<Rightarrow> real" where
  "polyval [] u = 0"
| "polyval (a # p) u = a + u * polyval p u"

fun polyder_from :: "nat \<Rightarrow> real list \<Rightarrow> real list" where
  "polyder_from k [] = []"
| "polyder_from k (a # p) = real k * a # polyder_from (Suc k) p"

definition polyder :: "real list \<Rightarrow> real list" where
  "polyder p = polyder_from 1 (tl p)"

text \<open>
  A spline object: the break points and, for each interval between two of them, the
  polynomial in powers of the distance from the left break point. Calling the object
  evaluates the piece of the interval that holds \<open>r\<close> (the first or the last piece
  outside the break points); \<open>derivative\<close> differentiates every piece.
\<close>

record ppoly =
  breaks :: "real list"
  coeffs :: "real list list"

definition piece_index :: "real list \<Rightarrow> real \<Rightarrow> nat" where
  "piece_index xs r = length (filter (\<lambda>b. b \<le> r) (butlast (tl xs)))"

definition evaluate :: "ppoly \<Rightarrow> real \<Rightarrow> real" where
  "evaluate s r =
     (let j = piece_index (breaks s) r
      in polyval (coeffs s ! j) (r - breaks s ! j))"

definition derivative :: "ppoly \<Rightarrow> ppoly" where
  "derivative s = s\<lparr>coeffs := map polyder (coeffs s)\<rparr>"

text \<open>
  Modelled from the spec: the sign negation of an interpolant (section 3 of the
  specification) negates every coefficient. The notebook has no such operation: it
  negates the samples and fits a second spline to them.
\<close>

definition negate :: "ppoly \<Rightarrow> ppoly" where
  "negate s = s\<lparr>coeffs := map (map uminus) (coeffs s)\<rparr>"

text \<open>
  \<open>joins k s j\<close>: the \<open>k\<close>-th derivatives of the pieces \<open>j\<close> and \<open>j + 1\<close> agree at the
  break point between them.
\<close>

definition joins :: "nat \<Rightarrow> ppoly \<Rightarrow> nat \<Rightarrow> bool" where
  "joins k s j \<longleftrightarrow>
     polyval ((polyder ^^ k) (coeffs s ! j)) (breaks s ! Suc j - breaks s ! j) =
     polyval ((polyder ^^ k) (coeffs s ! Suc j)) 0"

text \<open>
  Modelled from the spec: \<open>InterpolatedUnivariateSpline(x, y, k=3)\<close> is SciPy library code,
  not part of the repository. The interpolant of sections 3 and 4.1 of the specification
  is a piecewise cubic through every sample, with continuous value, first and second
  derivative; of the two end conditions the specification leaves open, not-a-knot is the
  one SciPy uses: its knots are \<open>x_2, ..., x_(m-3)\<close>, so the second and the last but one
  sample are not knots. The constructor needs \<open>x\<close> strictly increasing and more than
  \<open>k = 3\<close> samples.

  The result is characterised, not computed: \<open>InterpolatedUnivariateSpline x y s\<close> says that
  \<open>s\<close> is that spline, written with one cubic per interval \<open>[x_j, x_(j+1)]\<close>. Value, first
  and second derivative are continuous at every interior sample; at the second and the
  last but one sample the third derivative is continuous as well, which makes the two
  cubics that meet there one cubic. At most one \<open>s\<close> satisfies it (\<open>spline_unique\<close>), and
  calling it at a sample returns the sample's value (\<open>spline_through_samples\<close>).
\<close>

definition InterpolatedUnivariateSpline :: "real list \<Rightarrow> real list \<Rightarrow> ppoly \<Rightarrow> bool" where
  "InterpolatedUnivariateSpline x y s \<longleftrightarrow>
     sorted_wrt (<) x \<and> 4 \<le> length x \<and> length y = length x \<and>
     breaks s = x \<and> length (coeffs s) = length x - 1 \<and>
     (\<forall>j < length x - 1.
        length (coeffs s ! j) = 4 \<and>
        polyval (coeffs s ! j) 0 = y ! j \<and>
        polyval (coeffs s ! j) (x ! Suc j - x ! j) = y ! Suc j) \<and>
     (\<forall>j < length x - 2. joins 1 s j \<and> joins 2 s j) \<and>
     joins 3 s 0 \<and> joins 3 s (length x - 3)"

text \<open>
  The harmonic potential on the dense grid. The assignment of \<open>harmonic_potential_array\<close>
  is a placeholder in the notebook; its text fixes it as \<open>V(r) = 1/2 k (r - r_eq)^2 + V_0\<close>
  along \<open>r_array_fine_au\<close>.
\<close>

definition harmonic_potential :: "real \<Rightarrow> real \<Rightarrow> real \<Rightarrow> real \<Rightarrow> real" where
  "harmonic_potential k r_eq V0 r = 1 / 2 * k * (r - r_eq)\<^sup>2 + V0"

definition harmonic_potential_array :: "real \<Rightarrow> real \<Rightarrow> real \<Rightarrow> real list" where
  "harmonic_potential_array k r_eq V0 = map (harmonic_potential k r_eq V0) r_array_fine_au"

text \<open>
  The closed form \<open>- V(r)\<close> written as a spline object on the break points \<open>xs\<close>: on every
  interval its Taylor polynomial at the left end.
\<close>

definition negative_harmonic_pp :: "real \<Rightarrow> real \<Rightarrow> real \<Rightarrow> real list \<Rightarrow> ppoly" where
  "negative_harmonic_pp k r_eq V0 xs =
     \<lparr>breaks = xs,
      coeffs = map (\<lambda>a. [- harmonic_potential k r_eq V0 a, - k * (a - r_eq), - k / 2, 0])
                 (butlast xs)\<rparr>"

text \<open>Two reals of the same sign (or zero).\<close>

definition same_sign :: "real \<Rightarrow> real \<Rightarrow> bool" where
  "same_sign x y \<longleftrightarrow> (0 \<le> x \<and> 0 \<le> y) \<or> (x \<le> 0 \<and> y \<le> 0)"

subsection \<open>Force constant and frequency\<close>





subsection \<open>The trajectory loop\<close>

text \<open>
  The arrays the integration cell fills. In the notebook \<open>n_steps = 10000\<close>, \<open>dt = 0.1\<close> and
  \<open>x0 = 0.2\<close>; they are arguments here, with the other names the loop reads: \<open>ccsd_r_eq\<close>,
  \<open>ccsd_omega\<close>, \<open>mu\<close> and the two force splines, each as the function from a separation
  to a force that calling the spline object is. (\<open>harmonic_force_spline\<close> is built in the
  same cell, just before the loop; see the section on splines.)
\<close>

record trajectories =
  harmonic_r_vs_t :: "real list"
  harmonic_v_vs_t :: "real list"
  ccsd_r_vs_t :: "real list"
  ccsd_v_vs_t :: "real list"
  analytic_r_vs_t :: "real list"
  t_array :: "real list"

record notebook =
  ccsd_r_eq :: real
  ccsd_omega :: real
  mu :: real
  ccsd_force_spline :: "real \<Rightarrow> real"
  harmonic_force_spline :: "real \<Rightarrow> real"

definition amplitude :: "real \<Rightarrow> real" where
  "amplitude x0 = x0 / sin (pi / 4)"

definition v0 :: "real \<Rightarrow> notebook \<Rightarrow> real" where
  "v0 x0 nb = amplitude x0 * ccsd_omega nb * cos (pi / 4)"

text \<open>
  The arrays are \<open>np.zeros(n_steps)\<close>; the stores into index 0 raise \<open>IndexError\<close> when
  \<open>n_steps = 0\<close>.
\<close>

definition trajectory_init :: "nat \<Rightarrow> real \<Rightarrow> notebook \<Rightarrow> error + trajectories" where
  "trajectory_init n_steps x0 nb =
     (if n_steps = 0 then Inl IndexError
      else Inr \<lparr>harmonic_r_vs_t = (replicate n_steps 0)[0 := ccsd_r_eq nb + x0],
                harmonic_v_vs_t = (replicate n_steps 0)[0 := v0 x0 nb],
                ccsd_r_vs_t = (replicate n_steps 0)[0 := ccsd_r_eq nb + x0],
                ccsd_v_vs_t = (replicate n_steps 0)[0 := v0 x0 nb],
                analytic_r_vs_t = (replicate n_steps 0)[0 := ccsd_r_eq nb + x0],
                t_array = replicate n_steps 0\<rparr>)"

text \<open>One pass of the body of \<open>for i in range(1, n_steps)\<close>; there \<open>1 \<le> i < n_steps\<close>.\<close>

definition trajectory_body :: "real \<Rightarrow> real \<Rightarrow> notebook \<Rightarrow> trajectories \<Rightarrow> nat \<Rightarrow> trajectories" where
  "trajectory_body dt x0 nb T i =
     (let T1 = T\<lparr>t_array := (t_array T)[i := dt * real i]\<rparr>;
          (cr, cv) = velocity_verlet (ccsd_r_vs_t T1 ! (i - 1)) (ccsd_v_vs_t T1 ! (i - 1))
                       (mu nb) (ccsd_force_spline nb) dt;
          T2 = T1\<lparr>ccsd_r_vs_t := (ccsd_r_vs_t T1)[i := cr],
                  ccsd_v_vs_t := (ccsd_v_vs_t T1)[i := cv]\<rparr>;
          (hr, hv) = velocity_verlet (harmonic_r_vs_t T2 ! (i - 1)) (harmonic_v_vs_t T2 ! (i - 1))
                       (mu nb) (harmonic_force_spline nb) dt;
          T3 = T2\<lparr>harmonic_r_vs_t := (harmonic_r_vs_t T2)[i := hr],
                  harmonic_v_vs_t := (harmonic_v_vs_t T2)[i := hv]\<rparr>
      in T3\<lparr>analytic_r_vs_t := (analytic_r_vs_t T3)
                [i := harmonic_position (ccsd_omega nb) (amplitude x0) (pi / 4) (ccsd_r_eq nb)
                        (dt * real i)]\<rparr>)"

fun trajectory_loop :: "real \<Rightarrow> real \<Rightarrow> notebook \<Rightarrow> nat list \<Rightarrow> trajectories \<Rightarrow> trajectories" where
  "trajectory_loop dt x0 nb [] T = T"
| "trajectory_loop dt x0 nb (i # rest) T = trajectory_loop dt x0 nb rest (trajectory_body dt x0 nb T i)"

definition trajectory_cell :: "nat \<Rightarrow> real \<Rightarrow> real \<Rightarrow> notebook \<Rightarrow> error + trajectories" where
  "trajectory_cell n_steps dt x0 nb =
     (case trajectory_init n_steps x0 nb of
        Inl e \<Rightarrow> Inl e
      | Inr T \<Rightarrow> Inr (trajectory_loop dt x0 nb [1..<n_steps] T))"

text \<open>
  What the loop has established after the passes for \<open>i = 1, ..., k - 1\<close>, for arrays of
  length \<open>n\<close>.
\<close>

definition filled :: "nat \<Rightarrow> nat \<Rightarrow> real \<Rightarrow> real \<Rightarrow> notebook \<Rightarrow> trajectories \<Rightarrow> bool" where
  "filled n k dt x0 nb T \<longleftrightarrow>
     length (harmonic_r_vs_t T) = n \<and> length (harmonic_v_vs_t T) = n \<and>
     length (ccsd_r_vs_t T) = n \<and> length (ccsd_v_vs_t T) = n \<and>
     length (analytic_r_vs_t T) = n \<and> length (t_array T) = n \<and>
     ccsd_r_vs_t T ! 0 = ccsd_r_eq nb + x0 \<and> ccsd_v_vs_t T ! 0 = v0 x0 nb \<and>
     harmonic_r_vs_t T ! 0 = ccsd_r_eq nb + x0 \<and> harmonic_v_vs_t T ! 0 = v0 x0 nb \<and>
     t_array T ! 0 = 0 \<and>
     (\<forall>i. 1 \<le> i \<and> i < k \<longrightarrow>
        (ccsd_r_vs_t T ! i, ccsd_v_vs_t T ! i) =
          velocity_verlet (ccsd_r_vs_t T ! (i - 1)) (ccsd_v_vs_t T ! (i - 1))
            (mu nb) (ccsd_force_spline nb) dt \<and>
        (harmonic_r_vs_t T ! i, harmonic_v_vs_t T ! i) =
          velocity_verlet (harmonic_r_vs_t T ! (i - 1)) (harmonic_v_vs_t T ! (i - 1))
            (mu nb) (harmonic_force_spline nb) dt \<and>
        t_array T ! i = dt * real i)"

section \<open>Properties\<close>

subsection \<open>The integrator step\<close>

text \<open>
  C2. Time reversal: for a force field that depends on the position only and \<open>mu > 0\<close>,
  if a step takes \<open>(r, v)\<close> to \<open>(r', v')\<close>, then a step from \<open>(r', - v')\<close> with the same
  force field, mass and time step arrives at \<open>(r, - v)\<close>.
\<close>

theorem velocity_verlet_time_reversal:
  fixes mu :: real
  assumes "0 < mu"
    and "velocity_verlet r v mu F dt = (r', v')"
  shows "velocity_verlet r' (- v') mu F dt = (r, - v)"
proof -
  define a where "a = F r / mu"
  define a' where "a' = F r' / mu"
  have r': "r' = r + v * dt + 0.5 * a * dt\<^sup>2"
    using assms(2) by (simp add: velocity_verlet_def Let_def a_def)
  have v': "v' = v + 0.5 * (a + a') * dt"
    using assms(2) by (auto simp add: velocity_verlet_def Let_def a_def a'_def)
  have back_r: "r' + (- v') * dt + 0.5 * a' * dt\<^sup>2 = r"
    unfolding r' v' by (simp add: algebra_simps power2_eq_square)
  have back_v: "- v' + 0.5 * (a' + a) * dt = - v"
    unfolding v' by (simp add: algebra_simps)
  have "velocity_verlet r' (- v') mu F dt =
          (r' + (- v') * dt + 0.5 * a' * dt\<^sup>2,
           - v' + 0.5 * (a' + F (r' + (- v') * dt + 0.5 * a' * dt\<^sup>2) / mu) * dt)"
    unfolding velocity_verlet_def Let_def a'_def by (rule refl)
  also have "\<dots> = (r, - v + 0.5 * (a' + a) * dt - 0.5 * (a' + a) * dt)"
    unfolding back_r using back_v by (simp add: a_def)
  finally show ?thesis by simp
qed

theorem velocity_verlet_time_reversal_witness:
  "(0::real) < 2 \<and> velocity_verlet 1 0 2 (\<lambda>r. - 4 * r) 1 = (0, -1) \<and>
   velocity_verlet 0 (- (-1)) 2 (\<lambda>r. - 4 * r) 1 = (1, - 0)"
proof -
  have pos: "(0::real) < 2" by simp
  have fwd: "velocity_verlet 1 0 2 (\<lambda>r. - 4 * r) 1 = (0, -1)"
    by (simp add: velocity_verlet_def Let_def)
  show ?thesis
    using pos fwd velocity_verlet_time_reversal [OF pos fwd] by simp
qed

subsection \<open>Locating the minimum\<close>

lemma first_min_single: "first_min [x] 0"
  by (simp add: first_min_def)

lemma first_min_snoc_new:
  assumes "first_min pre b" and "x < pre ! b"
  shows "first_min (pre @ [x]) (length pre)"
  using assms unfolding first_min_def
  by (auto simp add: nth_append less_Suc_eq dest: spec [where x = b])

lemma first_min_snoc_keep:
  assumes "first_min pre b" and "\<not> x < pre ! b"
  shows "first_min (pre @ [x]) b"
  using assms unfolding first_min_def
  by (auto simp add: nth_append less_Suc_eq)

lemma argmin_scan_first_min:
  assumes "first_min pre b"
  shows "first_min (pre @ xs) (argmin_scan xs (length pre) b (pre ! b))"
  using assms
proof (induction xs arbitrary: pre b)
  case Nil
  then show ?case by simp
next
  case (Cons x xs)
  show ?case
  proof (cases "x < pre ! b")
    case True
    from first_min_snoc_new [OF Cons.prems True]
    have "first_min ((pre @ [x]) @ xs)
            (argmin_scan xs (length (pre @ [x])) (length pre) ((pre @ [x]) ! length pre))"
      by (rule Cons.IH)
    with True show ?thesis by simp
  next
    case False
    have b: "b < length pre" using Cons.prems by (simp add: first_min_def)
    from first_min_snoc_keep [OF Cons.prems False]
    have "first_min ((pre @ [x]) @ xs)
            (argmin_scan xs (length (pre @ [x])) b ((pre @ [x]) ! b))"
      by (rule Cons.IH)
    with False b show ?thesis by (simp add: nth_append)
  qed
qed

lemma argmin_first_min:
  assumes "E \<noteq> []"
  shows "\<exists>i. argmin E = Inr i \<and> first_min E i"
proof -
  from assms obtain x xs where E: "E = x # xs" by (cases E) auto
  have "first_min ([x] @ xs) (argmin_scan xs (length [x]) 0 ([x] ! 0))"
    by (rule argmin_scan_first_min [OF first_min_single])
  then show ?thesis by (simp add: E)
qed

lemma first_min_unique:
  assumes "first_min E i" and "first_min E j"
  shows "i = j"
proof (rule ccontr)
  assume "i \<noteq> j"
  then consider "i < j" | "j < i" by linarith
  then show False
  proof cases
    case 1
    with assms have "E ! j < E ! i" "E ! i \<le> E ! j"
      by (auto simp add: first_min_def)
    then show False by simp
  next
    case 2
    with assms have "E ! i < E ! j" "E ! j \<le> E ! i"
      by (auto simp add: first_min_def)
    then show False by simp
  qed
qed

text \<open>
  C4. On a non-empty energy array (with a grid of the same length) the cell returns the
  index \<open>i\<close> and the grid point \<open>r_fine ! i\<close> such that \<open>E ! i \<le> E ! j\<close> for every index
  \<open>j\<close> and \<open>E ! i < E ! j\<close> for every \<open>j < i\<close>: the minimum, at its first occurrence.
\<close>

theorem locate_r_eq_first_minimum:
  assumes "E \<noteq> []" and "length r_fine = length E"
  shows "\<exists>i. locate_r_eq r_fine E = Inr (i, r_fine ! i) \<and> i < length E \<and>
             (\<forall>j<length E. E ! i \<le> E ! j) \<and> (\<forall>j<i. E ! i < E ! j)"
proof -
  from argmin_first_min [OF assms(1)]
  obtain i where i: "argmin E = Inr i" "first_min E i" by blast
  then have "i < length r_fine" by (simp add: first_min_def assms(2))
  with i show ?thesis
    by (auto simp add: locate_r_eq_def first_min_def)
qed

theorem locate_r_eq_first_minimum_witness:
  "[3, 1, 2, 1::real] \<noteq> [] \<and> length [10, 20, 30, 40::real] = length [3, 1, 2, 1::real] \<and>
   locate_r_eq [10, 20, 30, 40] [3, 1, 2, 1] = Inr (1, 20) \<and>
   (\<exists>i. locate_r_eq [10, 20, 30, 40] [3, 1, 2, 1] = Inr (i, [10, 20, 30, 40] ! i) \<and>
        i < length [3, 1, 2, 1::real] \<and>
        (\<forall>j<length [3, 1, 2, 1::real]. [3, 1, 2, 1::real] ! i \<le> [3, 1, 2, 1] ! j) \<and>
        (\<forall>j<i. [3, 1, 2, 1::real] ! i < [3, 1, 2, 1] ! j))"
proof -
  have ne: "[3, 1, 2, 1::real] \<noteq> []" by simp
  have len: "length [10, 20, 30, 40::real] = length [3, 1, 2, 1::real]" by simp
  have val: "locate_r_eq [10, 20, 30, 40] [3, 1, 2, 1] = Inr (1, 20)"
    by (simp add: locate_r_eq_def)
  from locate_r_eq_first_minimum [OF ne len] ne len val show ?thesis by blast
qed


subsection \<open>The dense grid\<close>

lemma length_linspace: "length (linspace a b n) = n"
  by (simp add: linspace_def)

lemma linspace_nth:
  assumes "2 \<le> n" and "i < n"
  shows "linspace a b n ! i =
           (if i = n - 1 then b else real i * ((b - a) / real (n - 1)) + a)"
  using assms by (simp add: linspace_def nth_list_update)

lemma linspace_bounds:
  assumes "a \<le> b" and "i < n"
  shows "a \<le> linspace a b n ! i \<and> linspace a b n ! i \<le> b"
proof (cases "2 \<le> n")
  case False
  with assms have "n = 1" "i = 0" by auto
  with assms show ?thesis by (simp add: linspace_def)
next
  case True
  show ?thesis
  proof (cases "i = n - 1")
    case True
    with \<open>2 \<le> n\<close> assms show ?thesis by (simp add: linspace_nth)
  next
    case False
    define d where "d = real (n - 1)"
    have d: "0 < d" "real i \<le> d" using True assms(2) by (auto simp add: d_def)
    have nn: "0 \<le> real i * ((b - a) / d)" using assms(1) d by simp
    have "real i * ((b - a) / d) = (real i / d) * (b - a)" by simp
    also have "\<dots> \<le> 1 * (b - a)"
      using d assms(1) by (intro mult_right_mono) auto
    finally have le: "real i * ((b - a) / d) \<le> b - a" by simp
    have "linspace a b n ! i = real i * ((b - a) / d) + a"
      using True False assms(2) by (simp add: linspace_nth d_def)
    with nn le show ?thesis by linarith
  qed
qed

text \<open>
  C10. Whatever the 200 energies on the dense grid are, the cell returns a point \<open>r\<close> of
  \<open>r_array_fine_au\<close>, and \<open>0.5 * 1.89 \<le> r \<le> 2.3 * 1.89\<close>; the two ends of the dense grid are
  the first and the last of the 24 sampled separations in atomic units.
\<close>

theorem r_eq_inside_fitted_domain:
  assumes "length E = 200"
  shows "\<exists>i r. locate_r_eq r_array_fine_au E = Inr (i, r) \<and>
               r \<in> set r_array_fine_au \<and> 0.5 * 1.89 \<le> r \<and> r \<le> 2.3 * 1.89 \<and>
               r_array_fine_au ! 0 = r_array_au ! 0 \<and>
               r_array_fine_au ! 199 = r_array_au ! 23 \<and>
               length r_array_fine_au = 200 \<and> length r_array_au = 24"
proof -
  have len: "length r_array_fine_au = 200"
    by (simp add: r_array_fine_au_def length_linspace)
  from assms have "E \<noteq> []" by auto
  from argmin_first_min [OF this]
  obtain i where i: "argmin E = Inr i" "first_min E i" by blast
  then have lt: "i < 200" using assms by (simp add: first_min_def)
  define r where "r = r_array_fine_au ! i"
  have cell: "locate_r_eq r_array_fine_au E = Inr (i, r)"
    using i lt len by (simp add: locate_r_eq_def r_def)
  have mem: "r \<in> set r_array_fine_au"
    unfolding r_def using lt len by simp
  have "(0.5 * 1.89 :: real) \<le> 2.3 * 1.89" by simp
  from linspace_bounds [OF this lt]
  have bounds: "0.5 * 1.89 \<le> r \<and> r \<le> 2.3 * 1.89"
    by (simp add: r_def r_array_fine_au_def)
  have lo: "r_array_fine_au ! 0 = r_array_au ! 0"
    by (simp add: r_array_fine_au_def linspace_nth r_array_au_def r_array_def)
  have hi: "r_array_fine_au ! 199 = r_array_au ! 23"
    by (simp add: r_array_fine_au_def linspace_nth r_array_au_def r_array_def)
  have "length r_array_au = 24"
    by (simp add: r_array_au_def r_array_def)
  with cell mem bounds lo hi len show ?thesis by blast
qed

theorem r_eq_inside_fitted_domain_witness:
  "length (replicate 200 (0::real)) = 200 \<and>
   (\<exists>i r. locate_r_eq r_array_fine_au (replicate 200 0) = Inr (i, r) \<and>
          r \<in> set r_array_fine_au \<and> 0.5 * 1.89 \<le> r \<and> r \<le> 2.3 * 1.89 \<and>
          r_array_fine_au ! 0 = r_array_au ! 0 \<and>
          r_array_fine_au ! 199 = r_array_au ! 23 \<and>
          length r_array_fine_au = 200 \<and> length r_array_au = 24)"
proof -
  have len: "length (replicate 200 (0::real)) = 200" by simp
  from r_eq_inside_fitted_domain [OF len] len show ?thesis by blast
qed

subsection \<open>The trajectory loop\<close>

lemma filled_init:
  assumes "trajectory_init n x0 nb = Inr T"
  shows "filled n 1 dt x0 nb T"
proof -
  from assms have n: "0 < n" and
    T: "T = \<lparr>harmonic_r_vs_t = (replicate n 0)[0 := ccsd_r_eq nb + x0],
              harmonic_v_vs_t = (replicate n 0)[0 := v0 x0 nb],
              ccsd_r_vs_t = (replicate n 0)[0 := ccsd_r_eq nb + x0],
              ccsd_v_vs_t = (replicate n 0)[0 := v0 x0 nb],
              analytic_r_vs_t = (replicate n 0)[0 := ccsd_r_eq nb + x0],
              t_array = replicate n 0\<rparr>"
    by (auto simp add: trajectory_init_def split: if_splits)
  show ?thesis using n by (simp add: T filled_def)
qed

lemma filled_body:
  assumes "filled n k dt x0 nb T" and "1 \<le> k" and "k < n"
  shows "filled n (Suc k) dt x0 nb (trajectory_body dt x0 nb T k)"
  using assms unfolding filled_def trajectory_body_def Let_def
  by (auto simp add: nth_list_update less_Suc_eq split: prod.splits)

lemma filled_loop:
  assumes "filled n j dt x0 nb T" and "1 \<le> j" and "j \<le> n"
  shows "filled n n dt x0 nb (trajectory_loop dt x0 nb [j..<n] T)"
  using assms
proof (induction "n - j" arbitrary: j T)
  case 0
  then show ?case by simp
next
  case (Suc d)
  then have lt: "j < n" by simp
  then have upt: "[j..<n] = j # [Suc j..<n]" by (simp add: upt_conv_Cons)
  have "filled n (Suc j) dt x0 nb (trajectory_body dt x0 nb T j)"
    using Suc.prems lt by (intro filled_body) auto
  moreover have "d = n - Suc j" using Suc.hyps(2) by simp
  ultimately have "filled n n dt x0 nb
      (trajectory_loop dt x0 nb [Suc j..<n] (trajectory_body dt x0 nb T j))"
    using lt by (intro Suc.hyps(1)) auto
  then show ?case by (simp add: upt)
qed

text \<open>
  C7. For \<open>n_steps \<ge> 1\<close> the cell returns arrays of length \<open>n_steps\<close>; entry 0 of the position
  and velocity arrays is the initial state; for every \<open>1 \<le> i < n_steps\<close> the entry \<open>i\<close> is
  the velocity-Verlet step of the entry \<open>i - 1\<close> (for the ab initio and for the harmonic
  force field); and \<open>t_array ! i = dt * i\<close> for every \<open>i < n_steps\<close>.
\<close>

theorem trajectory_cell_recurrence:
  assumes "1 \<le> n_steps"
  shows "\<exists>T. trajectory_cell n_steps dt x0 nb = Inr T \<and>
     length (ccsd_r_vs_t T) = n_steps \<and> length (ccsd_v_vs_t T) = n_steps \<and>
     length (harmonic_r_vs_t T) = n_steps \<and> length (harmonic_v_vs_t T) = n_steps \<and>
     length (t_array T) = n_steps \<and>
     (ccsd_r_vs_t T ! 0, ccsd_v_vs_t T ! 0) = (ccsd_r_eq nb + x0, v0 x0 nb) \<and>
     (harmonic_r_vs_t T ! 0, harmonic_v_vs_t T ! 0) = (ccsd_r_eq nb + x0, v0 x0 nb) \<and>
     (\<forall>i. 1 \<le> i \<and> i < n_steps \<longrightarrow>
        (ccsd_r_vs_t T ! i, ccsd_v_vs_t T ! i) =
          velocity_verlet (ccsd_r_vs_t T ! (i - 1)) (ccsd_v_vs_t T ! (i - 1))
            (mu nb) (ccsd_force_spline nb) dt \<and>
        (harmonic_r_vs_t T ! i, harmonic_v_vs_t T ! i) =
          velocity_verlet (harmonic_r_vs_t T ! (i - 1)) (harmonic_v_vs_t T ! (i - 1))
            (mu nb) (harmonic_force_spline nb) dt) \<and>
     (\<forall>i<n_steps. t_array T ! i = dt * real i)"
proof -
  from assms obtain T0 where T0: "trajectory_init n_steps x0 nb = Inr T0"
    by (auto simp add: trajectory_init_def)
  define T where "T = trajectory_loop dt x0 nb [1..<n_steps] T0"
  have cell: "trajectory_cell n_steps dt x0 nb = Inr T"
    by (simp add: trajectory_cell_def T0 T_def)
  have "filled n_steps 1 dt x0 nb T0" by (rule filled_init [OF T0])
  from filled_loop [OF this _ assms] have F: "filled n_steps n_steps dt x0 nb T"
    by (simp add: T_def)
  have t: "\<forall>i<n_steps. t_array T ! i = dt * real i"
  proof (intro allI impI)
    fix i assume "i < n_steps"
    with F show "t_array T ! i = dt * real i"
      by (cases "i = 0") (auto simp add: filled_def)
  qed
  from F t cell show ?thesis unfolding filled_def by (intro exI [of _ T]) simp
qed

theorem trajectory_cell_recurrence_witness:
  "(1::nat) \<le> 2 \<and>
   (\<exists>T. trajectory_cell 2 1 0
          \<lparr>ccsd_r_eq = 1, ccsd_omega = 0, mu = 2, ccsd_force_spline = (\<lambda>r. - 4 * r),
           harmonic_force_spline = (\<lambda>r. - 4 * r)\<rparr> = Inr T \<and>
        length (ccsd_r_vs_t T) = 2 \<and> ccsd_r_vs_t T ! 0 = 1 \<and> ccsd_v_vs_t T ! 0 = 0 \<and>
        (ccsd_r_vs_t T ! 1, ccsd_v_vs_t T ! 1) = (0, -1) \<and> t_array T ! 1 = 1)"
proof -
  have n: "(1::nat) \<le> 2" by simp
  have step: "velocity_verlet 1 0 2 (\<lambda>r. - 4 * r) 1 = (0, -1)"
    by (simp add: velocity_verlet_def Let_def)
  from trajectory_cell_recurrence [OF n, of 1 0
      "\<lparr>ccsd_r_eq = 1, ccsd_omega = 0, mu = 2, ccsd_force_spline = (\<lambda>r. - 4 * r),
        harmonic_force_spline = (\<lambda>r. - 4 * r)\<rparr>"]
  obtain T where T: "trajectory_cell 2 1 0
          \<lparr>ccsd_r_eq = 1, ccsd_omega = 0, mu = 2, ccsd_force_spline = (\<lambda>r. - 4 * r),
           harmonic_force_spline = (\<lambda>r. - 4 * r)\<rparr> = Inr T"
    "length (ccsd_r_vs_t T) = 2"
    "ccsd_r_vs_t T ! 0 = 1" "ccsd_v_vs_t T ! 0 = 0"
    "(ccsd_r_vs_t T ! 1, ccsd_v_vs_t T ! 1) =
       velocity_verlet (ccsd_r_vs_t T ! 0) (ccsd_v_vs_t T ! 0) 2 (\<lambda>r. - 4 * r) 1"
    "t_array T ! 1 = 1"
    by (auto simp add: v0_def amplitude_def)
  with step n show ?thesis by (intro conjI exI [of _ T]) simp_all
qed


subsection \<open>The frequency is produced for every force constant\<close>




subsection \<open>The cubic spline through given points is unique\<close>

lemma zero_end_div:
  fixes b c e h :: real
  assumes "0 < h" and "b * h + c * h\<^sup>2 + e * h ^ 3 = 0"
  shows "b + c * h + e * h\<^sup>2 = 0"
proof -
  have "(b + c * h + e * h\<^sup>2) * h = 0"
    using assms(2) by (simp add: algebra_simps power2_eq_square power3_eq_cube)
  with assms(1) show ?thesis by simp
qed

lemma piece_step:
  fixes b c e h b' c' :: real
  assumes h: "0 < h" and z: "b + c * h + e * h\<^sup>2 = 0"
    and b': "b' = b + 2 * c * h + 3 * e * h\<^sup>2" and c': "c' = c + 3 * e * h"
  shows "b' = - 2 * b - c * h" and "c' = - 2 * c - 3 * b / h"
proof -
  have eh: "e * h\<^sup>2 = - b - c * h" using z by linarith
  show "b' = - 2 * b - c * h" unfolding b' using eh by (simp add: algebra_simps)
  have "e * h = (- b - c * h) / h"
    using eh h by (simp add: field_simps power2_eq_square)
  then have "3 * e * h = - 3 * b / h - 3 * c" using h by (simp add: field_simps)
  then show "c' = - 2 * c - 3 * b / h" unfolding c' by linarith
qed

lemma piece_step_same_sign:
  fixes b c h b' c' :: real
  assumes h: "0 < h" and ss: "same_sign b c"
    and b': "b' = - 2 * b - c * h" and c': "c' = - 2 * c - 3 * b / h"
  shows "same_sign b' c'" and "\<bar>b\<bar> \<le> \<bar>b'\<bar>" and "\<bar>c\<bar> \<le> \<bar>c'\<bar>"
proof -
  from ss consider "0 \<le> b" "0 \<le> c" | "b \<le> 0" "c \<le> 0"
    by (auto simp add: same_sign_def)
  then have "same_sign b' c' \<and> \<bar>b\<bar> \<le> \<bar>b'\<bar> \<and> \<bar>c\<bar> \<le> \<bar>c'\<bar>"
  proof cases
    case 1
    then have "0 \<le> c * h" "0 \<le> 3 * b / h" using h by simp_all
    with 1 show ?thesis unfolding b' c' same_sign_def by auto
  next
    case 2
    then have "c * h \<le> 0" "3 * b / h \<le> 0"
      using h by (simp_all add: mult_nonpos_nonneg divide_nonpos_pos)
    with 2 show ?thesis unfolding b' c' same_sign_def by auto
  qed
  then show "same_sign b' c'" and "\<bar>b\<bar> \<le> \<bar>b'\<bar>" and "\<bar>c\<bar> \<le> \<bar>c'\<bar>" by simp_all
qed

text \<open>Two pieces that are one cubic with zeros at 0, h0 and h0 + h1.\<close>

lemma first_pair:
  fixes b0 c0 e h0 h1 b1 c1 b2 c2 :: real
  assumes h: "0 < h0" "0 < h1"
    and z0: "b0 + c0 * h0 + e * h0\<^sup>2 = 0"
    and b1: "b1 = b0 + 2 * c0 * h0 + 3 * e * h0\<^sup>2" and c1: "c1 = c0 + 3 * e * h0"
    and z1: "b1 + c1 * h1 + e * h1\<^sup>2 = 0"
    and b2: "b2 = b1 + 2 * c1 * h1 + 3 * e * h1\<^sup>2" and c2: "c2 = c1 + 3 * e * h1"
  shows "c0 = - e * (2 * h0 + h1)" and "b0 = e * h0 * (h0 + h1)"
    and "b2 = e * h1 * (h0 + h1)" and "c2 = e * (h0 + 2 * h1)"
proof -
  have "(c0 + e * (2 * h0 + h1)) * (h0 + h1) = 0"
    using z0 z1 unfolding b1 c1 by (simp add: algebra_simps power2_eq_square)
  moreover have "h0 + h1 \<noteq> 0" using h by linarith
  ultimately have "c0 + e * (2 * h0 + h1) = 0" by simp
  then show c0: "c0 = - e * (2 * h0 + h1)" by linarith
  show b0: "b0 = e * h0 * (h0 + h1)"
    using z0 unfolding c0 by (simp add: algebra_simps power2_eq_square)
  show "b2 = e * h1 * (h0 + h1)"
    unfolding b2 b1 c1 b0 c0 by (simp add: algebra_simps power2_eq_square)
  show "c2 = e * (h0 + 2 * h1)"
    unfolding c2 c1 c0 by (simp add: algebra_simps)
qed

lemma factor_zero:
  fixes e p :: real
  assumes "e * p = 0" and "0 < p"
  shows "e = 0"
  using assms by simp

lemma same_sign_scaled:
  fixes e p q :: real
  assumes "0 \<le> p" "0 \<le> q"
  shows "same_sign (e * p) (e * q)"
proof (cases "0 \<le> e")
  case True
  with assms show ?thesis by (simp add: same_sign_def)
next
  case False
  with assms show ?thesis by (simp add: same_sign_def mult_nonpos_nonneg)
qed

lemma last_pair_zero:
  fixes e p q :: real
  assumes ss: "same_sign (e * p) (- e * q)" and p: "0 < p" and q: "0 < q"
  shows "e = 0"
proof (rule ccontr)
  assume ne: "e \<noteq> 0"
  show False
  proof (cases "0 < e")
    case True
    then have "0 < e * p" "- e * q < 0" using p q by (simp_all add: mult_pos_pos)
    with ss show False by (auto simp add: same_sign_def)
  next
    case False
    with ne have "e < 0" by simp
    then have "e * p < 0" "0 < - e * q" using p q by (simp_all add: mult_neg_pos)
    with ss show False by (auto simp add: same_sign_def)
  qed
qed

text \<open>
  A twice continuously differentiable piecewise cubic on \<open>n \<ge> 3\<close> intervals of widths
  \<open>h j > 0\<close> that vanishes at every node, and whose first two and last two pieces are one
  cubic each, vanishes identically. Piece \<open>j\<close> is \<open>b j u + c j u^2 + e j u^3\<close> in the
  local coordinate \<open>u\<close>.
\<close>

lemma vanishing_spline:
  fixes h b c e :: "nat \<Rightarrow> real" and n :: nat
  assumes n: "3 \<le> n"
    and hpos: "\<And>j. j < n \<Longrightarrow> 0 < h j"
    and zend: "\<And>j. j < n \<Longrightarrow> b j * h j + c j * (h j)\<^sup>2 + e j * (h j) ^ 3 = 0"
    and C1: "\<And>j. Suc j < n \<Longrightarrow> b (Suc j) = b j + 2 * c j * h j + 3 * e j * (h j)\<^sup>2"
    and C2: "\<And>j. Suc j < n \<Longrightarrow> c (Suc j) = c j + 3 * e j * h j"
    and nak0: "e 0 = e 1" and nakn: "e (n - 2) = e (n - 1)"
  shows "\<forall>j<n. b j = 0 \<and> c j = 0 \<and> e j = 0"
proof -
  have z: "b j + c j * h j + e j * (h j)\<^sup>2 = 0" if "j < n" for j
    using zero_end_div [OF hpos [OF that] zend [OF that]] .
  have step: "b (Suc j) = - 2 * b j - c j * h j \<and> c (Suc j) = - 2 * c j - 3 * b j / h j"
    if "Suc j < n" for j
  proof -
    from that have j: "j < n" by simp
    from piece_step [OF hpos [OF j] z [OF j] C1 [OF that] C2 [OF that]]
    show ?thesis by simp
  qed
  \<comment> \<open>the first two pieces\<close>
  have h01: "0 < h 0" "0 < h 1" using n by (auto intro: hpos)
  have z1: "b 1 + c 1 * h 1 + e 0 * (h 1)\<^sup>2 = 0"
    using z [of 1] n nak0 by simp
  have b1: "b 1 = b 0 + 2 * c 0 * h 0 + 3 * e 0 * (h 0)\<^sup>2" using C1 [of 0] n by simp
  have c1: "c 1 = c 0 + 3 * e 0 * h 0" using C2 [of 0] n by simp
  have b2: "b 2 = b 1 + 2 * c 1 * h 1 + 3 * e 0 * (h 1)\<^sup>2"
    using C1 [of 1] n nak0 by (simp add: numeral_2_eq_2)
  have c2: "c 2 = c 1 + 3 * e 0 * h 1"
    using C2 [of 1] n nak0 by (simp add: numeral_2_eq_2)
  have z0: "b 0 + c 0 * h 0 + e 0 * (h 0)\<^sup>2 = 0" using z [of 0] n by simp
  note first = first_pair [OF h01 z0 b1 c1 z1 b2 c2]
  have ss2: "same_sign (b 2) (c 2)"
    unfolding first(3,4) using h01
    by (simp add: mult.assoc same_sign_scaled)
  \<comment> \<open>the state at node 2 determines the first cubic\<close>
  have e0_if: "e 0 = 0" if "b 2 = 0"
  proof -
    from that first(3) have "e 0 * (h 1 * (h 0 + h 1)) = 0" by (simp add: mult.assoc)
    moreover have "0 < h 1 * (h 0 + h 1)" using h01 by (simp add: mult_pos_pos)
    ultimately show ?thesis by (rule factor_zero)
  qed
  \<comment> \<open>the state at node 2 vanishes\<close>
  have state2: "b 2 = 0 \<and> c 2 = 0"
  proof (cases "n = 3")
    case True
    then have "e 2 = e 0" using nak0 nakn by simp
    with z [of 2] True have "b 2 + c 2 * h 2 + e 0 * (h 2)\<^sup>2 = 0" by simp
    then have "e 0 * (h 1 * (h 0 + h 1) + (h 0 + 2 * h 1) * h 2 + (h 2)\<^sup>2) = 0"
      unfolding first(3,4) by (simp add: algebra_simps)
    moreover have "0 < h 2" using True by (auto intro: hpos)
    then have "0 < h 1 * (h 0 + h 1) + (h 0 + 2 * h 1) * h 2 + (h 2)\<^sup>2"
      using h01 by (intro add_pos_pos mult_pos_pos) auto
    ultimately have "e 0 = 0" by (rule factor_zero)
    then show ?thesis by (simp add: first(3,4))
  next
    case False
    with n have n4: "4 \<le> n" by simp
    \<comment> \<open>through the middle pieces\<close>
    have mid: "same_sign (b (2 + k)) (c (2 + k)) \<and> \<bar>b 2\<bar> \<le> \<bar>b (2 + k)\<bar> \<and> \<bar>c 2\<bar> \<le> \<bar>c (2 + k)\<bar>"
      if "2 + k \<le> n - 2" for k
      using that
    proof (induction k)
      case 0
      show ?case using ss2 by simp
    next
      case (Suc k)
      then have IH: "same_sign (b (2 + k)) (c (2 + k))"
        "\<bar>b 2\<bar> \<le> \<bar>b (2 + k)\<bar>" "\<bar>c 2\<bar> \<le> \<bar>c (2 + k)\<bar>" by simp_all
      from Suc.prems have lt: "Suc (2 + k) < n" by simp
      then have hk: "0 < h (2 + k)" by (intro hpos) simp
      from step [OF lt]
      have st: "b (Suc (2 + k)) = - 2 * b (2 + k) - c (2 + k) * h (2 + k)"
        "c (Suc (2 + k)) = - 2 * c (2 + k) - 3 * b (2 + k) / h (2 + k)" by simp_all
      from piece_step_same_sign [OF hk IH(1) st] IH(2,3)
      show ?case by simp
    qed
    \<comment> \<open>the last two pieces\<close>
    define m where "m = n - 2"
    have m: "Suc m < n" "m < n" "Suc (Suc m) = n" "2 \<le> m" using n4 by (simp_all add: m_def)
    have "Suc m = n - 1" using n4 by (simp add: m_def)
    then have em: "e (Suc m) = e m" using nakn by (simp add: m_def)
    have hm: "0 < h m" "0 < h (Suc m)" using m by (auto intro: hpos)
    have zm: "b m + c m * h m + e m * (h m)\<^sup>2 = 0" using z [OF m(2)] .
    have zm1: "b (Suc m) + c (Suc m) * h (Suc m) + e m * (h (Suc m))\<^sup>2 = 0"
      using z [OF m(1)] em by simp
    define bn where "bn = b (Suc m) + 2 * c (Suc m) * h (Suc m) + 3 * e m * (h (Suc m))\<^sup>2"
    define cn where "cn = c (Suc m) + 3 * e m * h (Suc m)"
    note last = first_pair [OF hm zm C1 [OF m(1)] C2 [OF m(1)] zm1 bn_def cn_def]
    have m2: "2 + (m - 2) = m" "2 + (m - 2) \<le> n - 2" using m(4) by (simp_all add: m_def)
    from mid [OF m2(2)]
    have ssm: "same_sign (b m) (c m)" and le: "\<bar>b 2\<bar> \<le> \<bar>b m\<bar>" "\<bar>c 2\<bar> \<le> \<bar>c m\<bar>"
      unfolding m2(1) by simp_all
    have "same_sign (e m * (h m * (h m + h (Suc m)))) (- e m * (2 * h m + h (Suc m)))"
      using ssm unfolding last(1,2) by (simp add: mult.assoc)
    then have "e m = 0"
      using hm by (intro last_pair_zero [of "e m" "h m * (h m + h (Suc m))" "2 * h m + h (Suc m)"])
        (auto intro: mult_pos_pos add_pos_pos)
    then have "b m = 0" "c m = 0" using last(1,2) by simp_all
    with le show ?thesis by simp
  qed
  then have e0: "e 0 = 0" using e0_if by simp
  then have start: "b 0 = 0" "c 0 = 0" using first(1,2) by simp_all
  \<comment> \<open>forward from node 0\<close>
  have "b j = 0 \<and> c j = 0 \<and> e j = 0" if "j < n" for j
    using that
  proof (induction j)
    case 0
    show ?case using start e0 by simp
  next
    case (Suc j)
    then have IH: "b j = 0" "c j = 0" "e j = 0" by simp_all
    have bj: "b (Suc j) = 0" using C1 [OF Suc.prems] IH by simp
    have cj: "c (Suc j) = 0" using C2 [OF Suc.prems] IH by simp
    have "e (Suc j) * (h (Suc j))\<^sup>2 = 0" using z [OF Suc.prems] bj cj by simp
    moreover have "0 < (h (Suc j))\<^sup>2" using hpos [OF Suc.prems] by simp
    ultimately have "e (Suc j) = 0" by (rule factor_zero)
    with bj cj show ?case by simp
  qed
  then show ?thesis by blast
qed

lemma cubic_list:
  assumes "length p = 4"
  shows "p = [p ! 0, p ! 1, p ! 2, p ! 3]"
proof -
  from assms obtain a0 a1 a2 a3 where "p = [a0, a1, a2, a3]"
    by (auto simp add: numeral_eq_Suc length_Suc_conv)
  then show ?thesis by simp
qed

lemma polyval_cubic: "polyval [a0, a1, a2, a3] u = a0 + a1 * u + a2 * u\<^sup>2 + a3 * u ^ 3"
  by (simp add: algebra_simps power2_eq_square power3_eq_cube)

lemma polyder_cubic:
  "polyder [a0, a1, a2, a3] = [a1, 2 * a2, 3 * a3]"
  "polyder [a1, a2, a3] = [a2, 2 * a3]"
  "polyder [a2, a3] = [a3]"
  by (simp_all add: polyder_def)

lemma joins_cubic:
  assumes "coeffs s ! j = [a0, a1, a2, a3]" and "coeffs s ! Suc j = [b0, b1, b2, b3]"
  defines "h \<equiv> breaks s ! Suc j - breaks s ! j"
  shows "joins 1 s j \<longleftrightarrow> b1 = a1 + 2 * a2 * h + 3 * a3 * h\<^sup>2"
    and "joins 2 s j \<longleftrightarrow> b2 = a2 + 3 * a3 * h"
    and "joins 3 s j \<longleftrightarrow> b3 = a3"
  using assms(1,2) unfolding h_def
  by (auto simp add: joins_def polyder_def numeral_eq_Suc algebra_simps power2_eq_square)

text \<open>The facts about piece j of an interpolating spline, in coordinates.\<close>

lemma spline_piece:
  assumes s: "InterpolatedUnivariateSpline x y s" and j: "j < length x - 1"
  defines "p \<equiv> coeffs s ! j" and "h \<equiv> x ! Suc j - x ! j"
  shows "p = [p ! 0, p ! 1, p ! 2, p ! 3]" and "p ! 0 = y ! j"
    and "p ! 0 + p ! 1 * h + p ! 2 * h\<^sup>2 + p ! 3 * h ^ 3 = y ! Suc j"
    and "0 < h"
proof -
  from s j have len: "length p = 4" and v0: "polyval p 0 = y ! j"
    and vh: "polyval p h = y ! Suc j"
    by (simp_all add: InterpolatedUnivariateSpline_def p_def h_def)
  show p: "p = [p ! 0, p ! 1, p ! 2, p ! 3]" by (rule cubic_list [OF len])
  show "p ! 0 = y ! j" using v0 by (subst (asm) p) simp
  show "p ! 0 + p ! 1 * h + p ! 2 * h\<^sup>2 + p ! 3 * h ^ 3 = y ! Suc j"
    using vh by (subst (asm) p) (simp only: polyval_cubic)
  from s have "sorted_wrt (<) x" by (simp add: InterpolatedUnivariateSpline_def)
  moreover have "j < Suc j" "Suc j < length x" using j by simp_all
  ultimately have "x ! j < x ! Suc j" by (simp add: sorted_wrt_iff_nth_less)
  then show "0 < h" by (simp add: h_def)
qed

lemma spline_joint:
  assumes s: "InterpolatedUnivariateSpline x y s" and j: "j < length x - 2"
  defines "p \<equiv> coeffs s ! j" and "q \<equiv> coeffs s ! Suc j" and "h \<equiv> x ! Suc j - x ! j"
  shows "q ! 1 = p ! 1 + 2 * p ! 2 * h + 3 * p ! 3 * h\<^sup>2"
    and "q ! 2 = p ! 2 + 3 * p ! 3 * h"
proof -
  have jp: "j < length x - 1" and jq: "Suc j < length x - 1" using j by simp_all
  note P = spline_piece(1) [OF s jp, folded p_def]
  note Q = spline_piece(1) [OF s jq, folded q_def]
  from s j have J: "joins 1 s j" "joins 2 s j"
    by (simp_all add: InterpolatedUnivariateSpline_def)
  from s have br: "breaks s = x" by (simp add: InterpolatedUnivariateSpline_def)
  note jc = joins_cubic [of s j, folded p_def q_def, OF P Q, unfolded br, folded h_def]
  from J(1) show "q ! 1 = p ! 1 + 2 * p ! 2 * h + 3 * p ! 3 * h\<^sup>2"
    by (simp only: jc(1))
  from J(2) show "q ! 2 = p ! 2 + 3 * p ! 3 * h"
    by (simp only: jc(2))
qed

lemma spline_knot:
  assumes s: "InterpolatedUnivariateSpline x y s"
    and k: "joins 3 s j" and j: "j < length x - 2"
  shows "coeffs s ! Suc j ! 3 = coeffs s ! j ! 3"
proof -
  have jp: "j < length x - 1" and jq: "Suc j < length x - 1" using j by simp_all
  note P = spline_piece(1) [OF s jp]
  note Q = spline_piece(1) [OF s jq]
  from k show ?thesis by (simp only: joins_cubic(3) [OF P Q])
qed

lemma spline_unique:
  assumes s1: "InterpolatedUnivariateSpline x y s1"
    and s2: "InterpolatedUnivariateSpline x y s2"
  shows "coeffs s1 = coeffs s2"
proof -
  define n where "n = length x - 1"
  define h where "h j = x ! Suc j - x ! j" for j
  define b where "b j = coeffs s1 ! j ! 1 - coeffs s2 ! j ! 1" for j
  define c where "c j = coeffs s1 ! j ! 2 - coeffs s2 ! j ! 2" for j
  define e where "e j = coeffs s1 ! j ! 3 - coeffs s2 ! j ! 3" for j
  from s1 have len: "4 \<le> length x" by (simp add: InterpolatedUnivariateSpline_def)
  then have n: "3 \<le> n" by (simp add: n_def)
  have hpos: "0 < h j" if "j < n" for j
    using spline_piece(4) [OF s1] that by (simp add: n_def h_def)
  have zend: "b j * h j + c j * (h j)\<^sup>2 + e j * (h j) ^ 3 = 0" if "j < n" for j
  proof -
    from that have j: "j < length x - 1" by (simp add: n_def)
    from spline_piece(2,3) [OF s1 j] spline_piece(2,3) [OF s2 j]
    show ?thesis by (simp add: b_def c_def e_def h_def algebra_simps)
  qed
  have C1: "b (Suc j) = b j + 2 * c j * h j + 3 * e j * (h j)\<^sup>2" if "Suc j < n" for j
  proof -
    from that have j: "j < length x - 2" by (simp add: n_def)
    from spline_joint(1) [OF s1 j] spline_joint(1) [OF s2 j]
    show ?thesis by (simp add: b_def c_def e_def h_def algebra_simps)
  qed
  have C2: "c (Suc j) = c j + 3 * e j * h j" if "Suc j < n" for j
  proof -
    from that have j: "j < length x - 2" by (simp add: n_def)
    from spline_joint(2) [OF s1 j] spline_joint(2) [OF s2 j]
    show ?thesis by (simp add: c_def e_def h_def algebra_simps)
  qed
  have k0: "joins 3 s1 0" "joins 3 s2 0"
    and kn: "joins 3 s1 (length x - 3)" "joins 3 s2 (length x - 3)"
    using s1 s2 by (simp_all add: InterpolatedUnivariateSpline_def)
  have nak0: "e 0 = e 1"
    using spline_knot [OF s1 k0(1)] spline_knot [OF s2 k0(2)] len by (simp add: e_def)
  have idx: "length x - 3 = n - 2" "Suc (length x - 3) = n - 1" "length x - 3 < length x - 2"
    using len by (simp_all add: n_def)
  have sn: "Suc (n - 2) = n - 1" using n by simp
  have nakn: "e (n - 2) = e (n - 1)"
    using spline_knot [OF s1 kn(1) idx(3)] spline_knot [OF s2 kn(2) idx(3)]
    unfolding idx(1) sn e_def by simp
  from vanishing_spline [of n h b c e, OF n hpos zend C1 C2 nak0 nakn]
  have zero: "b j = 0 \<and> c j = 0 \<and> e j = 0" if "j < n" for j using that by blast
  have piece: "coeffs s1 ! j = coeffs s2 ! j" if "j < n" for j
  proof -
    from that have j: "j < length x - 1" by (simp add: n_def)
    from zero [OF that] have "coeffs s1 ! j ! 1 = coeffs s2 ! j ! 1"
      "coeffs s1 ! j ! 2 = coeffs s2 ! j ! 2" "coeffs s1 ! j ! 3 = coeffs s2 ! j ! 3"
      by (simp_all add: b_def c_def e_def)
    moreover have "coeffs s1 ! j ! 0 = coeffs s2 ! j ! 0"
      using spline_piece(2) [OF s1 j] spline_piece(2) [OF s2 j] by simp
    ultimately show ?thesis
      using spline_piece(1) [OF s1 j] spline_piece(1) [OF s2 j] by metis
  qed
  have "length (coeffs s1) = n" "length (coeffs s2) = n"
    using s1 s2 by (simp_all add: InterpolatedUnivariateSpline_def n_def)
  with piece show ?thesis by (auto intro: nth_equalityI)
qed

lemma linspace_sorted:
  assumes "a < b"
  shows "sorted_wrt (<) (linspace a b n)"
proof (cases "2 \<le> n")
  case False
  then have "n = 0 \<or> n = 1" by auto
  then show ?thesis by (auto simp add: linspace_def)
next
  case True
  define d where "d = (b - a) / real (n - 1)"
  have d: "0 < d" using assms True by (simp add: d_def)
  have inner: "linspace a b n ! i < b" if "i < n - 1" for i
  proof -
    from that have "real i < real (n - 1)" by simp
    then have "real i * d < real (n - 1) * d" using d by simp
    also have "\<dots> = b - a" using True by (simp add: d_def)
    finally show ?thesis using that True by (simp add: linspace_nth d_def)
  qed
  show ?thesis unfolding sorted_wrt_iff_nth_less
  proof (intro allI impI)
    fix i j assume ij: "i < j" "j < length (linspace a b n)"
    then have jn: "j < n" by (simp add: length_linspace)
    show "linspace a b n ! i < linspace a b n ! j"
    proof (cases "j = n - 1")
      case True
      with ij jn inner [of i] \<open>2 \<le> n\<close> show ?thesis by (simp add: linspace_nth)
    next
      case False
      with jn ij have "i < n" "i \<noteq> n - 1" "j \<noteq> n - 1" by auto
      moreover have "real i * d < real j * d" using ij d by simp
      ultimately show ?thesis using \<open>2 \<le> n\<close> jn by (simp add: linspace_nth d_def)
    qed
  qed
qed

text \<open>Called at a sample, the spline object returns the sample's value.\<close>

lemma piece_index_at_sample:
  assumes sorted: "sorted_wrt (<) x" and j: "j < length x" and len: "2 \<le> length x"
  shows "piece_index x (x ! j) = min j (length x - 2)"
proof -
  let ?zs = "butlast (tl x)"
  have lz: "length ?zs = length x - 2" by simp
  have nth: "?zs ! i = x ! Suc i" if "i < length x - 2" for i
    using that by (simp add: nth_butlast nth_tl)
  have iff: "?zs ! i \<le> x ! j \<longleftrightarrow> Suc i \<le> j" if "i < length x - 2" for i
  proof -
    from that have si: "Suc i < length x" by simp
    show ?thesis
    proof (cases "Suc i \<le> j")
      case True
      have "x ! Suc i \<le> x ! j"
      proof (cases "Suc i = j")
        case True
        then show ?thesis by simp
      next
        case False
        with \<open>Suc i \<le> j\<close> have "Suc i < j" by simp
        then have "x ! Suc i < x ! j" using sorted j by (simp add: sorted_wrt_iff_nth_less)
        then show ?thesis by simp
      qed
      with True show ?thesis by (simp add: nth [OF that])
    next
      case False
      then have "j < Suc i" by simp
      then have "x ! j < x ! Suc i" using sorted si by (simp add: sorted_wrt_iff_nth_less)
      with False show ?thesis by (simp add: nth [OF that])
    qed
  qed
  have "piece_index x (x ! j) = card {i. i < length ?zs \<and> ?zs ! i \<le> x ! j}"
    unfolding piece_index_def by (rule length_filter_conv_card)
  also have "{i. i < length ?zs \<and> ?zs ! i \<le> x ! j} = {i. i < length x - 2 \<and> Suc i \<le> j}"
    using iff by (auto simp add: lz)
  also have "\<dots> = {..<min j (length x - 2)}" by auto
  finally show ?thesis by simp
qed

lemma spline_through_samples:
  assumes s: "InterpolatedUnivariateSpline x y s" and j: "j < length x"
  shows "evaluate s (x ! j) = y ! j"
proof -
  from s have sorted: "sorted_wrt (<) x" and len: "4 \<le> length x" and br: "breaks s = x"
    by (simp_all add: InterpolatedUnivariateSpline_def)
  have pi: "piece_index x (x ! j) = min j (length x - 2)"
    using sorted j len by (intro piece_index_at_sample) simp_all
  show ?thesis
  proof (cases "j \<le> length x - 2")
    case True
    then have "j < length x - 1" using len by simp
    with s have "polyval (coeffs s ! j) 0 = y ! j"
      by (simp add: InterpolatedUnivariateSpline_def)
    with True show ?thesis by (simp add: evaluate_def br pi min_def)
  next
    case False
    with j have jl: "j = Suc (length x - 2)" by simp
    have "length x - 2 < length x - 1" using len by simp
    with s have "polyval (coeffs s ! (length x - 2))
        (x ! Suc (length x - 2) - x ! (length x - 2)) = y ! Suc (length x - 2)"
      by (simp add: InterpolatedUnivariateSpline_def)
    moreover have "piece_index x (x ! Suc (length x - 2)) = length x - 2"
      using pi by (simp add: jl)
    ultimately show ?thesis by (simp add: evaluate_def br jl)
  qed
qed

subsection \<open>The harmonic force spline\<close>

lemma negative_harmonic_taylor:
  "polyval [- harmonic_potential k r_eq V0 a, - k * (a - r_eq), - k / 2, 0] (b - a) =
     - harmonic_potential k r_eq V0 b"
  by (simp add: harmonic_potential_def field_simps power2_eq_square)

lemma negative_harmonic_pp_spline:
  assumes "sorted_wrt (<) xs" and "4 \<le> length xs"
  shows "InterpolatedUnivariateSpline xs
           (map (\<lambda>V. - 1 * V) (map (harmonic_potential k r_eq V0) xs))
           (negative_harmonic_pp k r_eq V0 xs)"
proof -
  let ?s = "negative_harmonic_pp k r_eq V0 xs"
  have piece: "coeffs ?s ! j =
      [- harmonic_potential k r_eq V0 (xs ! j), - k * (xs ! j - r_eq), - k / 2, 0]"
    if "j < length xs - 1" for j
    using that by (simp add: negative_harmonic_pp_def nth_butlast)
  have br: "breaks ?s = xs" by (simp add: negative_harmonic_pp_def)
  have interp: "length (coeffs ?s ! j) = 4 \<and>
        polyval (coeffs ?s ! j) 0 = map (\<lambda>V. - 1 * V) (map (harmonic_potential k r_eq V0) xs) ! j \<and>
        polyval (coeffs ?s ! j) (xs ! Suc j - xs ! j) =
          map (\<lambda>V. - 1 * V) (map (harmonic_potential k r_eq V0) xs) ! Suc j"
    if "j < length xs - 1" for j
  proof -
    from that have "j < length xs" "Suc j < length xs" by simp_all
    then show ?thesis
      unfolding piece [OF that] negative_harmonic_taylor by simp
  qed
  have smooth: "joins 1 ?s j \<and> joins 2 ?s j \<and> joins 3 ?s j" if "j < length xs - 2" for j
  proof -
    from that have a: "j < length xs - 1" and b: "Suc j < length xs - 1" by simp_all
    show ?thesis
      unfolding joins_cubic [OF piece [OF a] piece [OF b]] br
      by (simp add: algebra_simps)
  qed
  have "joins 3 ?s 0" "joins 3 ?s (length xs - 3)"
    using smooth [of 0] smooth [of "length xs - 3"] assms(2) by simp_all
  moreover have "length (coeffs ?s) = length xs - 1"
    by (simp add: negative_harmonic_pp_def)
  moreover have
    "length (map (\<lambda>V. - 1 * V) (map (harmonic_potential k r_eq V0) xs)) = length xs"
    by simp
  ultimately show ?thesis
    unfolding InterpolatedUnivariateSpline_def
    using assms interp smooth br by blast
qed

lemma piece_index_less:
  assumes "2 \<le> length xs"
  shows "piece_index xs r < length xs - 1"
proof -
  have "piece_index xs r \<le> length (butlast (tl xs))"
    unfolding piece_index_def by (rule length_filter_le)
  also have "\<dots> = length xs - 2" by simp
  finally show ?thesis using assms by simp
qed

lemma evaluate_derivative_negative_harmonic_pp:
  assumes "2 \<le> length xs"
  shows "evaluate (derivative (negative_harmonic_pp k r_eq V0 xs)) r = - k * (r - r_eq)"
proof -
  define j where "j = piece_index xs r"
  have j: "j < length xs - 1" unfolding j_def by (rule piece_index_less [OF assms])
  then have "j < length (butlast xs)" by simp
  then show ?thesis
    by (simp add: evaluate_def derivative_def negative_harmonic_pp_def Let_def
        j_def [symmetric] nth_butlast polyder_def algebra_simps)
qed

lemma r_array_fine_au_sorted:
  "sorted_wrt (<) r_array_fine_au" "length r_array_fine_au = 200"
  unfolding r_array_fine_au_def by (simp_all add: linspace_sorted length_linspace)

lemma evaluate_cong:
  assumes "breaks s = breaks s'" and "coeffs s = coeffs s'"
  shows "evaluate (derivative s) r = evaluate (derivative s') r"
  using assms by (simp add: evaluate_def derivative_def)

text \<open>
  C9. The notebook builds \<open>harmonic_force_spline\<close> as the derivative of the spline fitted
  to \<open>-1 * harmonic_potential_array\<close> on the 200 points of \<open>r_array_fine_au\<close>. Whatever
  spline object \<open>InterpolatedUnivariateSpline\<close> returns for these data, its derivative
  evaluates to the closed form \<open>- k (r - r_eq)\<close> at every \<open>r\<close>, in particular at every \<open>r\<close>
  of the fitted domain: the cubic spline through samples of a quadratic is that quadratic.
\<close>

theorem harmonic_force_spline_closed_form:
  assumes "InterpolatedUnivariateSpline r_array_fine_au
             (map (\<lambda>V. - 1 * V) (harmonic_potential_array k r_eq V0))
             negative_harmonic_potential_spline"
  shows "evaluate (derivative negative_harmonic_potential_spline) r = - k * (r - r_eq)"
proof -
  let ?q = "negative_harmonic_pp k r_eq V0 r_array_fine_au"
  have q: "InterpolatedUnivariateSpline r_array_fine_au
             (map (\<lambda>V. - 1 * V) (harmonic_potential_array k r_eq V0)) ?q"
    unfolding harmonic_potential_array_def
    by (rule negative_harmonic_pp_spline) (simp_all add: r_array_fine_au_sorted)
  have "coeffs negative_harmonic_potential_spline = coeffs ?q"
    by (rule spline_unique [OF assms q])
  moreover have "breaks negative_harmonic_potential_spline = breaks ?q"
    using assms q by (simp add: InterpolatedUnivariateSpline_def)
  ultimately have "evaluate (derivative negative_harmonic_potential_spline) r =
      evaluate (derivative ?q) r"
    by (intro evaluate_cong)
  also have "\<dots> = - k * (r - r_eq)"
    by (rule evaluate_derivative_negative_harmonic_pp) (simp add: r_array_fine_au_sorted)
  finally show ?thesis .
qed

theorem harmonic_force_spline_closed_form_witness:
  "InterpolatedUnivariateSpline r_array_fine_au
     (map (\<lambda>V. - 1 * V) (harmonic_potential_array 2 1 0))
     (negative_harmonic_pp 2 1 0 r_array_fine_au) \<and>
   evaluate (derivative (negative_harmonic_pp 2 1 0 r_array_fine_au)) 2 = - 2"
proof -
  have q: "InterpolatedUnivariateSpline r_array_fine_au
     (map (\<lambda>V. - 1 * V) (harmonic_potential_array 2 1 0))
     (negative_harmonic_pp 2 1 0 r_array_fine_au)"
    unfolding harmonic_potential_array_def
    by (rule negative_harmonic_pp_spline) (simp_all add: r_array_fine_au_sorted)
  from harmonic_force_spline_closed_form [OF q, of 2] q show ?thesis by simp
qed

subsection \<open>The sign of the force\<close>

lemma polyval_uminus: "polyval (map uminus p) u = - polyval p u"
  by (induction p) (simp_all add: algebra_simps)

lemma polyder_from_uminus: "polyder_from i (map uminus p) = map uminus (polyder_from i p)"
  by (induction p arbitrary: i) simp_all

lemma polyder_uminus: "polyder (map uminus p) = map uminus (polyder p)"
  by (cases p) (simp_all add: polyder_def polyder_from_uminus)

lemma polyder_funpow_uminus: "(polyder ^^ i) (map uminus p) = map uminus ((polyder ^^ i) p)"
  by (induction i) (simp_all add: polyder_uminus)

lemma joins_negate:
  assumes "Suc j < length (coeffs s)"
  shows "joins i (negate s) j \<longleftrightarrow> joins i s j"
  using assms
  by (simp add: joins_def negate_def polyder_funpow_uminus polyval_uminus)

lemma negate_spline:
  assumes s: "InterpolatedUnivariateSpline x y s"
  shows "InterpolatedUnivariateSpline x (map (\<lambda>E. - 1 * E) y) (negate s)"
proof -
  from s have len: "4 \<le> length x" "length y = length x" "length (coeffs s) = length x - 1"
    by (simp_all add: InterpolatedUnivariateSpline_def)
  have interp: "length (coeffs (negate s) ! j) = 4 \<and>
        polyval (coeffs (negate s) ! j) 0 = map (\<lambda>E. - 1 * E) y ! j \<and>
        polyval (coeffs (negate s) ! j) (x ! Suc j - x ! j) = map (\<lambda>E. - 1 * E) y ! Suc j"
    if "j < length x - 1" for j
  proof -
    from s that have "length (coeffs s ! j) = 4" "polyval (coeffs s ! j) 0 = y ! j"
      "polyval (coeffs s ! j) (x ! Suc j - x ! j) = y ! Suc j"
      by (simp_all add: InterpolatedUnivariateSpline_def)
    moreover have "j < length (coeffs s)" "j < length y" "Suc j < length y"
      using that len by simp_all
    ultimately show ?thesis by (simp add: negate_def polyval_uminus)
  qed
  have smooth: "joins 1 (negate s) j \<and> joins 2 (negate s) j" if "j < length x - 2" for j
  proof -
    from s that have "joins 1 s j" "joins 2 s j"
      by (simp_all add: InterpolatedUnivariateSpline_def)
    moreover have "Suc j < length (coeffs s)" using that len by simp
    ultimately show ?thesis by (simp add: joins_negate)
  qed
  have knots: "joins 3 (negate s) 0" "joins 3 (negate s) (length x - 3)"
  proof -
    from s have "joins 3 s 0" "joins 3 s (length x - 3)"
      by (simp_all add: InterpolatedUnivariateSpline_def)
    moreover have "Suc 0 < length (coeffs s)" "Suc (length x - 3) < length (coeffs s)"
      using len by simp_all
    ultimately show "joins 3 (negate s) 0" "joins 3 (negate s) (length x - 3)"
      by (simp_all add: joins_negate)
  qed
  have "breaks (negate s) = x" "length (coeffs (negate s)) = length x - 1"
    "sorted_wrt (<) x" "length (map (\<lambda>E. - 1 * E) y) = length x"
    using s by (simp_all add: InterpolatedUnivariateSpline_def negate_def)
  with len(1) interp smooth knots show ?thesis
    unfolding InterpolatedUnivariateSpline_def by blast
qed

lemma evaluate_derivative_negate:
  assumes "piece_index (breaks s) r < length (coeffs s)"
  shows "evaluate (derivative (negate s)) r = - evaluate (derivative s) r"
  using assms
  by (simp add: evaluate_def derivative_def negate_def Let_def polyder_uminus polyval_uminus)

text \<open>
  C3. Let \<open>energy_spline\<close> be the spline through the energies \<open>E\<close> and
  \<open>negative_energy_spline\<close> the spline through \<open>-1 * E\<close> on the same separations, as the
  notebook builds its negative splines. The force, the derivative of the negative spline,
  is at every \<open>r\<close> the negative of the derivative of the energy spline; and so is the
  derivative of the negated energy spline.
\<close>

theorem force_is_negative_energy_derivative:
  assumes "InterpolatedUnivariateSpline x E energy_spline"
    and "InterpolatedUnivariateSpline x (map (\<lambda>E. - 1 * E) E) negative_energy_spline"
  shows "evaluate (derivative negative_energy_spline) r =
           - evaluate (derivative energy_spline) r \<and>
         evaluate (derivative (negate energy_spline)) r =
           - evaluate (derivative energy_spline) r"
proof -
  from assms(1) have len: "4 \<le> length x" "breaks energy_spline = x"
    "length (coeffs energy_spline) = length x - 1"
    by (simp_all add: InterpolatedUnivariateSpline_def)
  have n: "InterpolatedUnivariateSpline x (map (\<lambda>E. - 1 * E) E) (negate energy_spline)"
    by (rule negate_spline [OF assms(1)])
  have "piece_index (breaks energy_spline) r < length (coeffs energy_spline)"
    using piece_index_less [of x r] len by simp
  then have neg: "evaluate (derivative (negate energy_spline)) r =
      - evaluate (derivative energy_spline) r"
    by (rule evaluate_derivative_negate)
  have "coeffs negative_energy_spline = coeffs (negate energy_spline)"
    by (rule spline_unique [OF assms(2) n])
  moreover have "breaks negative_energy_spline = breaks (negate energy_spline)"
    using assms(2) n by (simp add: InterpolatedUnivariateSpline_def)
  ultimately have "evaluate (derivative negative_energy_spline) r =
      evaluate (derivative (negate energy_spline)) r"
    by (intro evaluate_cong)
  with neg show ?thesis by simp
qed

theorem force_is_negative_energy_derivative_witness:
  "InterpolatedUnivariateSpline [0, 1, 2, 3] [0, 1, 4, 9]
     \<lparr>breaks = [0, 1, 2, 3], coeffs = [[0, 0, 1, 0], [1, 2, 1, 0], [4, 4, 1, 0]]\<rparr> \<and>
   InterpolatedUnivariateSpline [0, 1, 2, 3] (map (\<lambda>E. - 1 * E) [0, 1, 4, 9])
     \<lparr>breaks = [0, 1, 2, 3], coeffs = [[0, 0, -1, 0], [-1, -2, -1, 0], [-4, -4, -1, 0]]\<rparr> \<and>
   evaluate (derivative
     \<lparr>breaks = [0, 1, 2, 3], coeffs = [[0, 0, 1, 0], [1, 2, 1, 0], [4, 4, 1, 0]]\<rparr>) (3 / 2) = 3 \<and>
   evaluate (derivative
     \<lparr>breaks = [0, 1, 2, 3], coeffs = [[0, 0, -1, 0], [-1, -2, -1, 0], [-4, -4, -1, 0]]\<rparr>)
     (3 / 2) = - 3"
proof -
  let ?e = "\<lparr>breaks = [0, 1, 2, 3], coeffs = [[0, 0, 1, 0], [1, 2, 1, 0], [4, 4, 1, 0]]\<rparr>"
  let ?n = "\<lparr>breaks = [0, 1, 2, 3],
             coeffs = [[0, 0, -1, 0], [-1, -2, -1, 0], [-4, -4, -1, 0]]\<rparr>"
  have e: "InterpolatedUnivariateSpline [0, 1, 2, 3] [0, 1, 4, 9] ?e"
    by (simp add: InterpolatedUnivariateSpline_def joins_def polyder_def numeral_eq_Suc
        less_Suc_eq all_conj_distrib)
  have n: "InterpolatedUnivariateSpline [0, 1, 2, 3] (map (\<lambda>E. - 1 * E) [0, 1, 4, 9]) ?n"
    by (simp add: InterpolatedUnivariateSpline_def joins_def polyder_def numeral_eq_Suc
        less_Suc_eq all_conj_distrib)
  have v: "evaluate (derivative ?e) (3 / 2) = 3"
    by (simp add: evaluate_def derivative_def piece_index_def polyder_def)
  from force_is_negative_energy_derivative [OF e n, of "3 / 2"] e n v
  show ?thesis by simp
qed

end
